theory Spec2Isabelle
  imports Main "HOL-Library.Sublist" "HOL-Library.Char_ord" "HOL-Library.List_Lexorder"
    "HOL-Library.Multiset"
begin

section \<open>Text\<close>

text \<open>
  A Python \<open>str\<close> is modelled as a \<open>string\<close>. A \<open>char\<close> stands for a code point below
  256; the functions of this section are Python's restricted to that range.
\<close>

definition newline :: char where
  "newline = CHR 0x0A"

definition carriage_return :: char where
  "carriage_return = CHR 0x0D"

text \<open>
  \<open>str.isspace\<close> for one character, which is what \<open>str.strip()\<close> removes: the code
  points 0x09 to 0x0D, 0x1C to 0x1F, 0x20, 0x85 and 0xA0.
\<close>

definition py_isspace :: "char \<Rightarrow> bool" where
  "py_isspace c = (c \<in> set [CHR 0x09, CHR 0x0A, CHR 0x0B, CHR 0x0C, CHR 0x0D,
     CHR 0x1C, CHR 0x1D, CHR 0x1E, CHR 0x1F, CHR 0x20, CHR 0x85, CHR 0xA0])"

definition lstrip :: "string \<Rightarrow> string" where
  "lstrip s = dropWhile py_isspace s"

definition rstrip :: "string \<Rightarrow> string" where
  "rstrip s = rev (dropWhile py_isspace (rev s))"

definition strip :: "string \<Rightarrow> string" where
  "strip s = rstrip (lstrip s)"

text \<open>
  \<open>str.lower\<close> for one character: the letters A to Z and the capital letters 0xC0 to
  0xDE (the multiplication sign 0xD7 apart) move up by 32.
\<close>

definition py_lower :: "char \<Rightarrow> char" where
  "py_lower c =
     (let n = (of_char c :: nat)
      in if (65 \<le> n \<and> n \<le> 90) \<or> (192 \<le> n \<and> n \<le> 222 \<and> n \<noteq> 215)
         then char_of (n + 32) else c)"

text \<open>\<open>s.split(sep)\<close> for a separator of one character: every occurrence splits.\<close>

fun split_on :: "char \<Rightarrow> string \<Rightarrow> string \<Rightarrow> string list" where
  "split_on sep cur [] = [cur]"
| "split_on sep cur (c # cs) =
     (if c = sep then cur # split_on sep [] cs else split_on sep (cur @ [c]) cs)"

definition py_split :: "char \<Rightarrow> string \<Rightarrow> string list" where
  "py_split sep s = split_on sep [] s"

text \<open>
  The first occurrence of a separator: \<open>find_first sep s\<close> is the text before it and the
  text after it (\<open>str.partition\<close>), or \<open>None\<close> when \<open>sep\<close> does not occur in \<open>s\<close>.
\<close>

fun find_from :: "string \<Rightarrow> string \<Rightarrow> string \<Rightarrow> (string \<times> string) option" where
  "find_from sep acc [] = (if sep = [] then Some (acc, []) else None)"
| "find_from sep acc (c # cs) =
     (if prefix sep (c # cs) then Some (acc, drop (length sep) (c # cs))
      else find_from sep (acc @ [c]) cs)"

definition find_first :: "string \<Rightarrow> string \<Rightarrow> (string \<times> string) option" where
  "find_first sep s = find_from sep [] s"

section \<open>The line pattern\<close>

text \<open>
  \<open>_parse_message\<close> matches \<^verbatim>\<open>^\[(.*?)\] (.*?): (.*)$\<close> with \<open>re.match\<close>. The matcher
  below is that pattern, written as the backtracking search the \<open>re\<close> module runs: a dot
  matches every character but the newline, a lazy group tries the shortest capture first
  and grows it by one character each time the rest of the pattern fails, a greedy group
  tries the longest capture first, and \<open>$\<close> matches at the end of the text or before a
  newline that ends it. The continuation \<open>k\<close> is the rest of the pattern; it receives
  the capture and the text left.
\<close>

fun lazy_dots :: "(string \<Rightarrow> string \<Rightarrow> 'a option) \<Rightarrow> string \<Rightarrow> string \<Rightarrow> 'a option" where
  "lazy_dots k acc [] = k acc []"
| "lazy_dots k acc (c # cs) =
     (case k acc (c # cs) of
        Some r \<Rightarrow> Some r
      | None \<Rightarrow> if c = newline then None else lazy_dots k (acc @ [c]) cs)"

fun greedy_dots :: "(string \<Rightarrow> string \<Rightarrow> 'a option) \<Rightarrow> string \<Rightarrow> string \<Rightarrow> 'a option" where
  "greedy_dots k acc [] = k acc []"
| "greedy_dots k acc (c # cs) =
     (case (if c = newline then None else greedy_dots k (acc @ [c]) cs) of
        Some r \<Rightarrow> Some r
      | None \<Rightarrow> k acc (c # cs))"

definition expect :: "string \<Rightarrow> string \<Rightarrow> string option" where
  "expect lit s = (if prefix lit s then Some (drop (length lit) s) else None)"

definition at_end :: "string \<Rightarrow> bool" where
  "at_end s = (s = [] \<or> s = [newline])"

definition match_content :: "string \<Rightarrow> string \<Rightarrow> string \<Rightarrow> (string \<times> string \<times> string) option" where
  "match_content ts sender s =
     greedy_dots (\<lambda>content r. if at_end r then Some (ts, sender, content) else None) [] s"

definition match_sender :: "string \<Rightarrow> string \<Rightarrow> (string \<times> string \<times> string) option" where
  "match_sender ts s =
     lazy_dots (\<lambda>sender r. case expect '': '' r of None \<Rightarrow> None
                             | Some r' \<Rightarrow> match_content ts sender r') [] s"

definition match_timestamp :: "string \<Rightarrow> (string \<times> string \<times> string) option" where
  "match_timestamp s =
     lazy_dots (\<lambda>ts r. case expect ''] '' r of None \<Rightarrow> None
                         | Some r' \<Rightarrow> match_sender ts r') [] s"

definition re_match_pattern :: "string \<Rightarrow> (string \<times> string \<times> string) option" where
  "re_match_pattern s =
     (case s of [] \<Rightarrow> None
      | c # r \<Rightarrow> if c = CHR ''['' then match_timestamp r else None)"

text \<open>
  \<open>_parse_message(message)\<close>: the three groups of the match on the stripped message, or
  the triple \<open>(None, None, None)\<close>.
\<close>

type_synonym cell = "string option"

definition parse_message :: "string \<Rightarrow> cell \<times> cell \<times> cell" where
  "parse_message message =
     (case re_match_pattern (strip message) of
        Some (timestamp, sender, content) \<Rightarrow> (Some timestamp, Some sender, Some content)
      | None \<Rightarrow> (None, None, None))"

section \<open>Files\<close>

datatype py_error = FileNotFoundError | ValueError | KeyError | AttributeError | ReError

text \<open>
  The file system maps a path to the decoded text of the file there. \<open>open\<close> raises
  \<open>FileNotFoundError\<close> on a path with no file. The file is opened in text mode with
  universal newlines: \<open>readlines\<close> reads \<^verbatim>\<open>\r\n\<close> and a lone \<^verbatim>\<open>\r\<close> as \<^verbatim>\<open>\n\<close>, and
  returns the lines with their newline kept.
\<close>

type_synonym filesystem = "string \<rightharpoonup> string"

fun universal_newlines :: "string \<Rightarrow> string" where
  "universal_newlines [] = []"
| "universal_newlines [c] = [if c = carriage_return then newline else c]"
| "universal_newlines (c # d # ds) =
     (if c = carriage_return \<and> d = newline then newline # universal_newlines ds
      else if c = carriage_return then newline # universal_newlines (d # ds)
      else c # universal_newlines (d # ds))"

fun split_lines :: "string \<Rightarrow> string \<Rightarrow> string list" where
  "split_lines cur [] = (if cur = [] then [] else [cur])"
| "split_lines cur (c # cs) =
     (if c = newline then (cur @ [c]) # split_lines [] cs else split_lines (cur @ [c]) cs)"

definition readlines :: "string \<Rightarrow> string list" where
  "readlines content = split_lines [] (universal_newlines content)"

section \<open>Data frames\<close>

text \<open>
  A pandas \<open>DataFrame\<close> of text cells: the row labels and the columns in their order,
  each a name and its cells. A cell is a string or missing (\<open>None\<close>).
\<close>

record dataframe =
  df_index :: "nat list"
  df_columns :: "(string \<times> cell list) list"

text \<open>\<open>pd.DataFrame(data, columns=[a, b, c])\<close> for a list of triples.\<close>

definition new_dataframe :: "(cell \<times> cell \<times> cell) list \<Rightarrow> string \<times> string \<times> string \<Rightarrow> dataframe" where
  "new_dataframe data names =
     (case names of (a, b, c) \<Rightarrow>
        \<lparr>df_index = [0..<length data],
         df_columns = [(a, map fst data), (b, map (fst \<circ> snd) data), (c, map (snd \<circ> snd) data)]\<rparr>)"

text \<open>
  \<open>df[name] = col\<close>: an existing column is replaced where it stands, a new one is added
  last.
\<close>

fun set_column :: "(string \<times> cell list) list \<Rightarrow> string \<Rightarrow> cell list \<Rightarrow> (string \<times> cell list) list" where
  "set_column [] name col = [(name, col)]"
| "set_column ((n, c) # cols) name col =
     (if n = name then (n, col) # cols else (n, c) # set_column cols name col)"

text \<open>
  \<open>df[[k1, k2, ...]] = frame\<close>: \<open>ValueError\<close> (columns must be same length as key) unless
  the frame has as many columns as there are keys; then the columns are assigned in
  turn.
\<close>

definition set_columns :: "dataframe \<Rightarrow> string list \<Rightarrow> cell list list \<Rightarrow> py_error + dataframe" where
  "set_columns df keys frame =
     (if length frame \<noteq> length keys then Inl ValueError
      else Inr (df\<lparr>df_columns := fold (\<lambda>(k, col) cols. set_column cols k col)
                                       (zip keys frame) (df_columns df)\<rparr>))"

text \<open>\<open>df[[n1, n2, ...]]\<close>: the named columns in that order; \<open>KeyError\<close> when one is missing.\<close>

fun select_columns :: "(string \<times> cell list) list \<Rightarrow> string list \<Rightarrow> py_error + (string \<times> cell list) list" where
  "select_columns cols [] = Inr []"
| "select_columns cols (n # ns) =
     (case map_of cols n of
        None \<Rightarrow> Inl KeyError
      | Some c \<Rightarrow> (case select_columns cols ns of
                     Inl e \<Rightarrow> Inl e
                   | Inr r \<Rightarrow> Inr ((n, c) # r)))"

definition getitem_columns :: "dataframe \<Rightarrow> string list \<Rightarrow> py_error + dataframe" where
  "getitem_columns df names =
     (case select_columns (df_columns df) names of
        Inl e \<Rightarrow> Inl e
      | Inr cols \<Rightarrow> Inr (df\<lparr>df_columns := cols\<rparr>))"

text \<open>\<open>df[mask]\<close> for a boolean mask: the rows where the mask holds, labels kept.\<close>

definition keep :: "bool list \<Rightarrow> 'a list \<Rightarrow> 'a list" where
  "keep bs xs = map snd (filter fst (zip bs xs))"

definition getitem_mask :: "dataframe \<Rightarrow> bool list \<Rightarrow> dataframe" where
  "getitem_mask df bs =
     \<lparr>df_index = keep bs (df_index df),
      df_columns = map (\<lambda>(n, c). (n, keep bs c)) (df_columns df)\<rparr>"

text \<open>
  \<open>series.str.split(sep, expand=True)\<close>: the columns of the frame it returns. Each string
  is split at every separator, a missing cell stays missing in every column, and the
  frame is as wide as the longest split, shorter rows padded with \<open>None\<close>. A series with
  no rows gives a frame with no columns.
\<close>

definition str_split_expand :: "char \<Rightarrow> cell list \<Rightarrow> cell list list" where
  "str_split_expand sep col =
     (let parts = map (map_option (py_split sep)) col;
          max_len = fold max (map (\<lambda>p. case p of None \<Rightarrow> 1 | Some ps \<Rightarrow> length ps) parts) 0
      in map (\<lambda>j. map (\<lambda>p. case p of None \<Rightarrow> None
                               | Some ps \<Rightarrow> if j < length ps then Some (ps ! j) else None) parts)
           [0..<max_len])"

text \<open>
  \<open>df.groupby(name).size()\<close>: the distinct values of the column in sorted order (strings
  compare by code points), each with the number of rows that hold it. Rows with a
  missing key are left out.
\<close>

definition groupby_size :: "dataframe \<Rightarrow> string \<Rightarrow> py_error + (string \<times> nat) list" where
  "groupby_size df name =
     (case map_of (df_columns df) name of
        None \<Rightarrow> Inl KeyError
      | Some col \<Rightarrow>
          Inr (map (\<lambda>k. (k, length (filter (\<lambda>c. c = Some k) col)))
                 (sort (remdups (concat (map (\<lambda>c. case c of None \<Rightarrow> [] | Some s \<Rightarrow> [s]) col))))))"

section \<open>Loading a chat\<close>

text \<open>
  \<open>_split_and_reorder_timestamp(df)\<close>. \<open>df.Timestamp\<close> raises \<open>AttributeError\<close> on a frame
  with no such column.
\<close>

definition split_and_reorder_timestamp :: "dataframe \<Rightarrow> py_error + dataframe" where
  "split_and_reorder_timestamp df =
     (case map_of (df_columns df) ''Timestamp'' of
        None \<Rightarrow> Inl AttributeError
      | Some ts \<Rightarrow>
          (case set_columns df [''Date'', ''Time''] (str_split_expand (CHR '','') ts) of
             Inl e \<Rightarrow> Inl e
           | Inr df' \<Rightarrow> getitem_columns df' [''Date'', ''Time'', ''Sender'', ''Content'']))"

text \<open>
  \<open>load_chat_data(file_path, split_timestamp)\<close>. The source opens the literal path
  \<^verbatim>\<open>'_chat.txt'\<close>; \<open>file_path\<close> is not read.
\<close>

definition load_chat_data :: "filesystem \<Rightarrow> string \<Rightarrow> bool \<Rightarrow> py_error + dataframe" where
  "load_chat_data fs file_path split_timestamp =
     (case fs ''_chat.txt'' of
        None \<Rightarrow> Inl FileNotFoundError
      | Some content \<Rightarrow>
          (let chat_data = readlines content;
               parsed_messages = map parse_message chat_data;
               parsed_messages = filter (\<lambda>msg. fst msg \<noteq> None) parsed_messages;
               df = new_dataframe parsed_messages (''Timestamp'', ''Sender'', ''Content'')
           in if split_timestamp then split_and_reorder_timestamp df else Inr df))"

section \<open>Messages per sender\<close>

text \<open>
  \<open>plot_senders_distribution(df)\<close> computes \<open>sender_message_count\<close>, prints it and draws
  it. The model is the series it computes and prints; the chart is not modelled.
\<close>

definition plot_senders_distribution :: "dataframe \<Rightarrow> py_error + (string \<times> nat) list" where
  "plot_senders_distribution df = groupby_size df ''Sender''"

section \<open>Searching for a word\<close>

text \<open>
  \<open>Series.str.contains(word, case=False, na=False)\<close> leaves \<open>regex=True\<close>, so \<open>word\<close> is
  compiled as a regular expression with \<open>re.IGNORECASE\<close> and each cell is searched for a
  match. The model covers the patterns made of ordinary characters and the dot, and the
  patterns that start with a repetition sign, which \<open>re.compile\<close> refuses (nothing to
  repeat). \<open>re_compile\<close> is \<open>None\<close> on every other pattern: the model says nothing about
  them.
\<close>

datatype re_node = LITERAL char | ANY

definition re_special :: "char \<Rightarrow> bool" where
  "re_special c = (c \<in> set (''.^$*+?{}[]|()'' @ [CHR 0x5C]))"

fun compile_nodes :: "string \<Rightarrow> re_node list option" where
  "compile_nodes [] = Some []"
| "compile_nodes (c # cs) =
     (if c = CHR ''.'' then map_option ((#) ANY) (compile_nodes cs)
      else if re_special c then None
      else map_option ((#) (LITERAL c)) (compile_nodes cs))"

definition re_compile :: "string \<Rightarrow> (py_error + re_node list) option" where
  "re_compile pat =
     (case pat of
        [] \<Rightarrow> Some (Inr [])
      | c # cs \<Rightarrow> if c \<in> set ''*+?'' then Some (Inl ReError)
                  else map_option Inr (compile_nodes pat))"

text \<open>
  Under \<open>re.IGNORECASE\<close> a literal matches the characters with its lower case; the dot
  matches every character but the newline.
\<close>

fun node_matches :: "re_node \<Rightarrow> char \<Rightarrow> bool" where
  "node_matches (LITERAL p) c = (py_lower c = py_lower p)"
| "node_matches ANY c = (c \<noteq> newline)"

fun match_here :: "re_node list \<Rightarrow> string \<Rightarrow> bool" where
  "match_here [] s = True"
| "match_here (n # ns) [] = False"
| "match_here (n # ns) (c # cs) = (node_matches n c \<and> match_here ns cs)"

text \<open>\<open>pattern.search(s) is not None\<close>: a match that starts at some position of \<open>s\<close>.\<close>

fun re_search :: "re_node list \<Rightarrow> string \<Rightarrow> bool" where
  "re_search p [] = match_here p []"
| "re_search p (c # cs) = (match_here p (c # cs) \<or> re_search p cs)"

definition str_contains :: "cell list \<Rightarrow> string \<Rightarrow> (py_error + bool list) option" where
  "str_contains col pat =
     (case re_compile pat of
        None \<Rightarrow> None
      | Some (Inl e) \<Rightarrow> Some (Inl e)
      | Some (Inr p) \<Rightarrow>
          Some (Inr (map (\<lambda>x. case x of None \<Rightarrow> False | Some s \<Rightarrow> re_search p s) col)))"

text \<open>
  \<open>count_word_usage(word, df)\<close>. \<open>df["Content"]\<close> raises \<open>KeyError\<close> on a frame with no
  such column; the pattern is compiled next, the rows are filtered, and the three
  columns are selected last.
\<close>

definition count_word_usage :: "string \<Rightarrow> dataframe \<Rightarrow> (py_error + dataframe) option" where
  "count_word_usage word df =
     (case map_of (df_columns df) ''Content'' of
        None \<Rightarrow> Some (Inl KeyError)
      | Some content \<Rightarrow>
          (case str_contains content word of
             None \<Rightarrow> None
           | Some (Inl e) \<Rightarrow> Some (Inl e)
           | Some (Inr bs) \<Rightarrow>
               (let filtered_df = getitem_mask df bs
                in Some (getitem_columns filtered_df [''Date'', ''Sender'', ''Content'']))))"

section \<open>Notions the properties are stated with\<close>

text \<open>
  The line format as the specification words it: after stripping, a line reads
  \<^verbatim>\<open>[T] S: C\<close>, where \<open>T\<close> ends at the first closing bracket and \<open>S\<close> at the first colon
  followed by a space. \<open>claimed_parse_line\<close> is the parser those words describe; it is
  compared with \<open>parse_message\<close> below.
\<close>

definition claimed_parse_line :: "string \<Rightarrow> cell \<times> cell \<times> cell" where
  "claimed_parse_line line =
     (case strip line of
        [] \<Rightarrow> (None, None, None)
      | c # r \<Rightarrow>
          if c \<noteq> CHR ''['' then (None, None, None)
          else (case find_first '']'' r of
                  None \<Rightarrow> (None, None, None)
                | Some (t, r1) \<Rightarrow>
                    (case expect '' '' r1 of
                       None \<Rightarrow> (None, None, None)
                     | Some r2 \<Rightarrow>
                         (case find_first '': '' r2 of
                            None \<Rightarrow> (None, None, None)
                          | Some (s, c) \<Rightarrow> (Some t, Some s, Some c)))))"

text \<open>A word is contained in a text as a literal substring, letter case ignored.\<close>

definition contains_ignoring_case :: "string \<Rightarrow> string \<Rightarrow> bool" where
  "contains_ignoring_case word s = sublist (map py_lower word) (map py_lower s)"

text \<open>
  The well-formed lines of a file: the lines the pattern matches, each as its three
  groups, in the order of the file.
\<close>

definition parsed_rows :: "string \<Rightarrow> (string \<times> string \<times> string) list" where
  "parsed_rows content = List.map_filter (\<lambda>line. re_match_pattern (strip line)) (readlines content)"

text \<open>The number of commas in a timestamp.\<close>

definition commas :: "string \<Rightarrow> nat" where
  "commas ts = length (filter (\<lambda>c. c = CHR '','') ts)"

text \<open>
  A frame is well formed when every column has one cell per row label. \<open>take_rows df p\<close>
  is the frame with the rows at the positions \<open>p\<close>, in that order (\<open>df.iloc[p]\<close>); for a
  permutation \<open>p\<close> of the positions it is \<open>df\<close> with its rows reordered.
\<close>

definition wf_dataframe :: "dataframe \<Rightarrow> bool" where
  "wf_dataframe df = list_all (\<lambda>(n, c). length c = length (df_index df)) (df_columns df)"

definition take_rows :: "dataframe \<Rightarrow> nat list \<Rightarrow> dataframe" where
  "take_rows df p =
     \<lparr>df_index = map (\<lambda>i. df_index df ! i) p,
      df_columns = map (\<lambda>(n, c). (n, map (\<lambda>i. c ! i) p)) (df_columns df)\<rparr>"

text \<open>The senders of a column: its cells that are not missing.\<close>

definition present :: "cell list \<Rightarrow> string list" where
  "present col = concat (map (\<lambda>c. case c of None \<Rightarrow> [] | Some s \<Rightarrow> [s]) col)"


section \<open>The line pattern finds the first separators\<close>

lemma prefix_drop: "prefix sep s \<Longrightarrow> s = sep @ drop (length sep) s"
  by (auto simp: prefix_def)

lemma find_from_None: "sep \<noteq> [] \<Longrightarrow> (find_from sep acc s = None) = (\<not> sublist sep s)"
  by (induction s arbitrary: acc) (auto simp: sublist_Cons_right)

lemma find_first_None: "sep \<noteq> [] \<Longrightarrow> (find_first sep s = None) = (\<not> sublist sep s)"
  by (simp add: find_first_def find_from_None)

lemma not_sublist_butlast: "sep \<noteq> [] \<Longrightarrow> \<not> sublist sep (butlast sep)"
proof
  assume ne: "sep \<noteq> []" and sub: "sublist sep (butlast sep)"
  have "length sep \<le> length (butlast sep)" by (rule sublist_length_le[OF sub])
  then have "length sep \<le> length sep - 1" by (simp only: length_butlast)
  moreover have "0 < length sep" using ne by simp
  ultimately show False by arith
qed

lemma sublist_of_suffix:
  assumes "sublist x u" "suffix u r"
  shows "sublist x r"
proof -
  obtain ps ss where u: "u = ps @ x @ ss" using assms(1) by (auto simp: sublist_def)
  obtain zs where r: "r = zs @ u" using assms(2) by (auto simp: suffix_def)
  have "r = (zs @ ps) @ x @ ss" using u r by simp
  then show ?thesis by (simp only: sublist_appendI)
qed

lemma newline_suffix: "newline \<notin> set s \<Longrightarrow> suffix r s \<Longrightarrow> newline \<notin> set r"
  using set_mono_suffix[of r s] by blast

lemma find_from_Some:
  assumes "sep \<noteq> []"
  shows "find_from sep acc s = Some (a, b) \<Longrightarrow>
         \<exists>x. a = acc @ x \<and> s = x @ sep @ b \<and> \<not> sublist sep (x @ butlast sep)"
proof (induction s arbitrary: acc)
  case Nil
  then show ?case using assms by simp
next
  case (Cons c cs)
  show ?case
  proof (cases "prefix sep (c # cs)")
    case True
    with Cons.prems have "a = acc" "b = drop (length sep) (c # cs)" by simp_all
    moreover have "c # cs = sep @ drop (length sep) (c # cs)" by (rule prefix_drop[OF True])
    ultimately have "a = acc @ [] \<and> c # cs = [] @ sep @ b \<and> \<not> sublist sep ([] @ butlast sep)"
      using not_sublist_butlast[OF assms] by simp
    then show ?thesis by blast
  next
    case False
    with Cons.prems have "find_from sep (acc @ [c]) cs = Some (a, b)" by simp
    from Cons.IH[OF this] obtain x where x: "a = (acc @ [c]) @ x" "cs = x @ sep @ b"
      "\<not> sublist sep (x @ butlast sep)" by blast
    have "\<not> prefix sep (c # x @ butlast sep)"
    proof
      assume "prefix sep (c # x @ butlast sep)"
      then have "prefix sep ((c # x @ butlast sep) @ [last sep] @ b)"
        using prefix_prefix by blast
      moreover have "(c # x @ butlast sep) @ [last sep] @ b = c # cs"
        using x(2) assms by simp
      ultimately show False using False by simp
    qed
    with x(3) have "\<not> sublist sep ((c # x) @ butlast sep)"
      by (simp add: sublist_Cons_right)
    with x(1,2) have "a = acc @ (c # x) \<and> c # cs = (c # x) @ sep @ b \<and> \<not> sublist sep ((c # x) @ butlast sep)"
      by simp
    then show ?thesis by blast
  qed
qed

lemma find_first_Some:
  "sep \<noteq> [] \<Longrightarrow> find_first sep s = Some (a, b) \<Longrightarrow> s = a @ sep @ b \<and> \<not> sublist sep (a @ butlast sep)"
  unfolding find_first_def using find_from_Some[of sep "[]" s a b] by auto


text \<open>
  On a text with no newline the greedy group takes everything; a lazy group followed by
  a literal stops at the first occurrence of the literal after which the rest of the
  pattern matches, and that is the first occurrence of all whenever a failure of the
  rest is inherited by every later position.
\<close>

lemma greedy_dots_all:
  "newline \<notin> set s \<Longrightarrow>
   greedy_dots (\<lambda>content r. if at_end r then Some (g content) else None) acc s = Some (g (acc @ s))"
  by (induction s arbitrary: acc) (auto simp: at_end_def)

lemma match_content_eq: "newline \<notin> set s \<Longrightarrow> match_content ts sender s = Some (ts, sender, s)"
  unfolding match_content_def
  using greedy_dots_all[of s "\<lambda>content. (ts, sender, content)" "[]"] by simp

lemma lazy_dots_None:
  "(\<And>a t. suffix t s \<Longrightarrow> k a t = None) \<Longrightarrow> lazy_dots k acc s = None"
proof (induction s arbitrary: acc)
  case Nil
  then show ?case by simp
next
  case (Cons c cs)
  have "k acc (c # cs) = None" using Cons.prems by simp
  moreover have "lazy_dots k (acc @ [c]) cs = None"
    using Cons.prems by (intro Cons.IH) (simp add: suffix_Cons)
  ultimately show ?case by simp
qed

lemma suffix_after_sep:
  assumes "suffix t cs" "t = sep @ u" "c # cs = sep @ r"
  shows "suffix u r"
proof -
  have "suffix u t" using assms(2) by (simp add: suffix_def)
  then have "suffix u cs" using assms(1) by (rule suffix_order.trans)
  then have "suffix u (c # cs)" by (rule suffix_ConsI)
  then have "suffix u (sep @ r)" by (simp only: assms(3))
  then consider "suffix u r" | v where "suffix v sep" "u = v @ r"
    by (auto simp: suffix_append)
  then show ?thesis
  proof cases
    case 1
    then show ?thesis .
  next
    case 2
    have "length t \<le> length cs" by (rule suffix_length_le[OF assms(1)])
    moreover have "length t = length sep + length u" using assms(2) by simp
    moreover have "Suc (length cs) = length sep + length r"
      using arg_cong[OF assms(3), of length] by simp
    moreover have "length r \<le> length u" using 2(2) by simp
    ultimately have False by arith
    then show ?thesis ..
  qed
qed

lemma lazy_dots_expect:
  assumes nl: "newline \<notin> set s"
    and fail: "\<And>x y r u. suffix r s \<Longrightarrow> suffix u r \<Longrightarrow> g x r = None \<Longrightarrow> g y u = None"
  shows "lazy_dots (\<lambda>x r. case expect sep r of None \<Rightarrow> None | Some r' \<Rightarrow> g x r') acc s
         = (case find_from sep acc s of None \<Rightarrow> None | Some (a, r') \<Rightarrow> g a r')"
  using nl fail
proof (induction s arbitrary: acc)
  case Nil
  show ?case by (simp add: expect_def)
next
  case (Cons c cs)
  let ?k = "\<lambda>x r. case expect sep r of None \<Rightarrow> None | Some r' \<Rightarrow> g x r'"
  have cnl: "c \<noteq> newline" and nlcs: "newline \<notin> set cs" using Cons.prems(1) by auto
  have failcs: "g y u = None" if "suffix r cs" "suffix u r" "g x r = None" for x y r u
    using Cons.prems(2)[OF suffix_ConsI[OF that(1)] that(2) that(3)] .
  have IH: "lazy_dots ?k (acc @ [c]) cs
      = (case find_from sep (acc @ [c]) cs of None \<Rightarrow> None | Some (a, r') \<Rightarrow> g a r')"
    by (rule Cons.IH[OF nlcs failcs])
  show ?case
  proof (cases "prefix sep (c # cs)")
    case False
    then have "?k acc (c # cs) = None" by (simp add: expect_def)
    then have step: "lazy_dots ?k acc (c # cs) = lazy_dots ?k (acc @ [c]) cs"
      using cnl by simp
    have ff: "find_from sep acc (c # cs) = find_from sep (acc @ [c]) cs"
      using False by simp
    show ?thesis by (simp only: step ff IH)
  next
    case True
    define r where "r = drop (length sep) (c # cs)"
    have r: "c # cs = sep @ r" unfolding r_def by (rule prefix_drop[OF True])
    have here: "?k acc (c # cs) = g acc r" using True by (simp add: expect_def r_def)
    have ff: "find_from sep acc (c # cs) = Some (acc, r)" using True by (simp add: r_def)
    show ?thesis
    proof (cases "g acc r")
      case (Some v)
      have "lazy_dots ?k acc (c # cs) = Some v" using here Some by simp
      then show ?thesis by (simp only: ff Some option.case prod.case)
    next
      case None
      have sr: "suffix r (c # cs)" by (rule suffixI[OF r])
      have "lazy_dots ?k (acc @ [c]) cs = None"
      proof (rule lazy_dots_None)
        fix a t
        assume suf: "suffix t cs"
        show "?k a t = None"
        proof (cases "prefix sep t")
          case False
          then show ?thesis by (simp add: expect_def)
        next
          case True
          define u where "u = drop (length sep) t"
          have u: "t = sep @ u" unfolding u_def by (rule prefix_drop[OF True])
          have "suffix u r" by (rule suffix_after_sep[OF suf u r])
          then have "g a u = None" by (rule Cons.prems(2)[OF sr _ None])
          then show ?thesis using True by (simp add: expect_def u_def)
        qed
      qed
      then have "lazy_dots ?k acc (c # cs) = None" using here None cnl by simp
      then show ?thesis by (simp only: ff None option.case prod.case)
    qed
  qed
qed

lemma match_sender_eq:
  assumes "newline \<notin> set s"
  shows "match_sender ts s = map_option (\<lambda>(a, b). (ts, a, b)) (find_first '': '' s)"
proof -
  have fail: "match_content ts y u = None"
    if "suffix r s" "suffix u r" "match_content ts x r = None" for x y r u
  proof -
    have "newline \<notin> set r" by (rule newline_suffix[OF assms that(1)])
    then have "match_content ts x r \<noteq> None" by (simp add: match_content_eq)
    then show ?thesis using that(3) by simp
  qed
  have "match_sender ts s =
      (case find_first '': '' s of None \<Rightarrow> None | Some (a, r') \<Rightarrow> match_content ts a r')"
    unfolding match_sender_def find_first_def by (rule lazy_dots_expect[OF assms fail])
  also have "\<dots> = map_option (\<lambda>(a, b). (ts, a, b)) (find_first '': '' s)"
  proof (cases "find_first '': '' s")
    case None
    then show ?thesis by simp
  next
    case (Some ab)
    obtain a b where ab: "ab = (a, b)" by (cases ab)
    have "s = a @ '': '' @ b" using find_first_Some[of "'': ''" s a b] Some ab by simp
    then have "newline \<notin> set b" using assms by auto
    then show ?thesis using Some ab by (simp add: match_content_eq)
  qed
  finally show ?thesis .
qed

lemma match_timestamp_eq:
  assumes "newline \<notin> set s"
  shows "match_timestamp s =
     (case find_first ''] '' s of
        None \<Rightarrow> None
      | Some (t, r) \<Rightarrow> map_option (\<lambda>(a, b). (t, a, b)) (find_first '': '' r))"
proof -
  have fail: "\<And>x y r u. suffix r s \<Longrightarrow> suffix u r \<Longrightarrow> match_sender x r = None
          \<Longrightarrow> match_sender y u = None"
  proof -
    fix x y r u
    assume sr: "suffix r s" and su: "suffix u r" and none: "match_sender x r = None"
    have nr: "newline \<notin> set r" by (rule newline_suffix[OF assms sr])
    then have nu: "newline \<notin> set u" using su by (rule newline_suffix)
    have "\<not> sublist '': '' r" using none nr by (simp add: match_sender_eq find_first_None)
    then have "\<not> sublist '': '' u"
      using sublist_of_suffix[OF _ su] by blast
    then show "match_sender y u = None" using nu by (simp add: match_sender_eq find_first_None)
  qed
  have "match_timestamp s =
      (case find_first ''] '' s of None \<Rightarrow> None | Some (a, r') \<Rightarrow> match_sender a r')"
    unfolding match_timestamp_def find_first_def by (rule lazy_dots_expect[OF assms fail])
  also have "\<dots> = (case find_first ''] '' s of
        None \<Rightarrow> None
      | Some (t, r) \<Rightarrow> map_option (\<lambda>(a, b). (t, a, b)) (find_first '': '' r))"
  proof (cases "find_first ''] '' s")
    case None
    then show ?thesis by simp
  next
    case (Some ab)
    obtain a b where ab: "ab = (a, b)" by (cases ab)
    have "s = a @ ''] '' @ b" using find_first_Some[of "''] ''" s a b] Some ab by simp
    then have "newline \<notin> set b" using assms by auto
    then show ?thesis using Some ab by (simp add: match_sender_eq)
  qed
  finally show ?thesis .
qed

lemma re_match_pattern_eq:
  assumes "newline \<notin> set s"
  shows "re_match_pattern s =
     (case s of [] \<Rightarrow> None
      | c # r \<Rightarrow> if c \<noteq> CHR ''['' then None
          else (case find_first ''] '' r of
                  None \<Rightarrow> None
                | Some (t, r') \<Rightarrow> (case find_first '': '' r' of
                                     None \<Rightarrow> None
                                   | Some (a, b) \<Rightarrow> Some (t, a, b))))"
proof (cases s)
  case Nil
  then show ?thesis by (simp add: re_match_pattern_def)
next
  case (Cons c r)
  then have "newline \<notin> set r" using assms by simp
  then show ?thesis using Cons
    by (simp add: re_match_pattern_def match_timestamp_eq split: option.splits)
qed

text \<open>
  Claim C2, as amended. A message whose stripped text holds no newline is parsed exactly
  when that text starts with an opening bracket, a closing bracket followed by a space
  occurs after it, and a colon followed by a space occurs after that. The timestamp then
  ends at the first closing bracket that a space follows (not at the first closing
  bracket), the sender at the first colon that a space follows, and the content is the
  rest, each verbatim. Every other such message gives \<open>(None, None, None)\<close>; the function
  is total, so nothing is raised.
\<close>

theorem parse_message_first_separators:
  assumes "newline \<notin> set (strip line)"
  shows "parse_message line =
     (case strip line of
        [] \<Rightarrow> (None, None, None)
      | c # r \<Rightarrow>
          if c \<noteq> CHR ''['' then (None, None, None)
          else (case find_first ''] '' r of
                  None \<Rightarrow> (None, None, None)
                | Some (t, r') \<Rightarrow>
                    (case find_first '': '' r' of
                       None \<Rightarrow> (None, None, None)
                     | Some (s, c) \<Rightarrow> (Some t, Some s, Some c))))"
  unfolding parse_message_def re_match_pattern_eq[OF assms]
  by (simp split: list.splits option.splits)

theorem parse_message_first_separators_witness:
  "newline \<notin> set (strip ''  [a]b] c: d: e '') \<and>
   parse_message ''  [a]b] c: d: e '' = (Some ''a]b'', Some ''c'', Some ''d: e'')"
proof -
  have s: "strip ''  [a]b] c: d: e '' = ''[a]b] c: d: e''"
    by (simp add: strip_def lstrip_def rstrip_def py_isspace_def)
  have n: "newline \<notin> set (strip ''  [a]b] c: d: e '')"
    unfolding s by (simp add: newline_def)
  show ?thesis
    using n parse_message_first_separators[OF n] unfolding s
    by (simp add: find_first_def)
qed

text \<open>
  Claim C2 as stated fails: in \<^verbatim>\<open>[a]b] c: d\<close> no space follows the first closing bracket,
  so the line is not of the form the claim describes and the parser the claim describes
  gives the sentinel, yet \<open>parse_message\<close> backtracks to the second bracket and returns a
  triple.
\<close>

theorem parse_message_first_bracket_counterexample:
  "parse_message ''[a]b] c: d'' = (Some ''a]b'', Some ''c'', Some ''d'') \<and>
   claimed_parse_line ''[a]b] c: d'' = (None, None, None)"
  by code_simp

section \<open>The path that is opened\<close>

lemma load_chat_data_any_path: "load_chat_data fs p b = load_chat_data fs q b"
  by (simp add: load_chat_data_def)

text \<open>
  Claim C1 fails on the code. The file at the path given to \<open>load_chat_data\<close> exists and
  holds a well-formed line, but the function opens \<^verbatim>\<open>_chat.txt\<close>, which does not exist,
  and raises \<open>FileNotFoundError\<close>.
\<close>

theorem load_chat_data_ignores_file_path:
  "load_chat_data [''export.txt'' \<mapsto> ''[2023-01-01, 12:00 PM] Alice: Hello'']
     ''export.txt'' True = Inl FileNotFoundError"
  by (simp add: load_chat_data_def)

section \<open>The empty file\<close>

text \<open>
  Claim C7 fails on the code. With \<open>split_timestamp\<close> true an empty file raises
  \<open>ValueError\<close>: the split of a series with no rows is a frame with no columns, which
  cannot be assigned to the two columns Date and Time. With \<open>split_timestamp\<close> false the
  result is the table with no rows and the columns Timestamp, Sender and Content.
\<close>

theorem load_chat_data_empty_file:
  "load_chat_data [''_chat.txt'' \<mapsto> ''''] ''_chat.txt'' True = Inl ValueError \<and>
   load_chat_data [''_chat.txt'' \<mapsto> ''''] ''_chat.txt'' False =
     Inr \<lparr>df_index = [],
          df_columns = [(''Timestamp'', []), (''Sender'', []), (''Content'', [])]\<rparr>"
  by code_simp

section \<open>The search compiles the word as a pattern\<close>

lemma re_special_dot: "re_special (CHR ''.'')"
  by (simp add: re_special_def)

lemma repeat_sign_special: "c \<in> set ''*+?'' \<Longrightarrow> re_special c"
  by (auto simp: re_special_def)

lemma compile_nodes_literal:
  "list_all (\<lambda>c. \<not> re_special c) w \<Longrightarrow> compile_nodes w = Some (map LITERAL w)"
proof (induction w)
  case Nil
  show ?case by simp
next
  case (Cons c cs)
  have "\<not> re_special c" using Cons.prems by simp
  then have "c \<noteq> CHR ''.''" using re_special_dot by blast
  moreover have "compile_nodes cs = Some (map LITERAL cs)" using Cons by simp
  ultimately show ?case using \<open>\<not> re_special c\<close> by simp
qed

lemma re_compile_literal:
  assumes "list_all (\<lambda>c. \<not> re_special c) w"
  shows "re_compile w = Some (Inr (map LITERAL w))"
proof (cases w)
  case Nil
  then show ?thesis by (simp add: re_compile_def)
next
  case (Cons c cs)
  have "\<not> re_special c" using assms Cons by simp
  then have "c \<notin> set ''*+?''" using repeat_sign_special by blast
  then show ?thesis
    using compile_nodes_literal[OF assms] Cons by (simp add: re_compile_def)
qed

lemma match_here_literal:
  "match_here (map LITERAL w) s = prefix (map py_lower w) (map py_lower s)"
proof (induction w arbitrary: s)
  case Nil
  show ?case by simp
next
  case (Cons c cs)
  show ?case
  proof (cases s)
    case Nil
    then show ?thesis by simp
  next
    case (Cons d ds)
    then show ?thesis using Cons.IH[of ds] by auto
  qed
qed

lemma re_search_literal:
  "re_search (map LITERAL w) s = contains_ignoring_case w s"
  unfolding contains_ignoring_case_def
proof (induction s)
  case Nil
  show ?case by (simp add: match_here_literal)
next
  case (Cons d ds)
  have "sublist (map py_lower w) (map py_lower (d # ds)) =
        (prefix (map py_lower w) (map py_lower (d # ds)) \<or> sublist (map py_lower w) (map py_lower ds))"
    by (simp add: sublist_Cons_right)
  then show ?case using Cons by (simp add: match_here_literal)
qed

lemma str_contains_literal:
  assumes "list_all (\<lambda>c. \<not> re_special c) w"
  shows "str_contains col w =
    Some (Inr (map (\<lambda>x. case x of None \<Rightarrow> False | Some s \<Rightarrow> contains_ignoring_case w s) col))"
  by (simp add: str_contains_def re_compile_literal[OF assms] re_search_literal
      cong: option.case_cong)

lemma map_of_keep:
  "map_of (map (\<lambda>(n, c). (n, keep bs c)) cols) k = map_option (keep bs) (map_of cols k)"
  by (induction cols) auto

lemma count_word_usage_literal:
  assumes "list_all (\<lambda>c. \<not> re_special c) w"
    and "map_of (df_columns df) ''Content'' = Some content"
  shows "count_word_usage w df =
     Some (getitem_columns
       (getitem_mask df
          (map (\<lambda>x. case x of None \<Rightarrow> False | Some s \<Rightarrow> contains_ignoring_case w s) content))
       [''Date'', ''Sender'', ''Content''])"
  by (simp add: count_word_usage_def assms(2) str_contains_literal[OF assms(1)])

lemma count_word_usage_no_date:
  assumes "re_compile w = Some (Inr p)" and "map_of (df_columns df) ''Date'' = None"
  shows "count_word_usage w df = Some (Inl KeyError)"
proof (cases "map_of (df_columns df) ''Content''")
  case None
  then show ?thesis by (simp add: count_word_usage_def)
next
  case (Some content)
  then show ?thesis
    using assms
    by (simp add: count_word_usage_def str_contains_def getitem_columns_def getitem_mask_def
        map_of_keep)
qed

lemma count_word_usage_with_date:
  assumes "re_compile w = Some (Inr p)"
    and "map_of (df_columns df) ''Date'' = Some d"
    and "map_of (df_columns df) ''Sender'' = Some s"
    and "map_of (df_columns df) ''Content'' = Some c"
  shows "count_word_usage w df =
     Some (Inr \<lparr>df_index = keep (map (case_option False (re_search p)) c) (df_index df),
               df_columns = [(''Date'', keep (map (case_option False (re_search p)) c) d),
                             (''Sender'', keep (map (case_option False (re_search p)) c) s),
                             (''Content'', keep (map (case_option False (re_search p)) c) c)]\<rparr>)"
  using assms
  by (simp add: count_word_usage_def str_contains_def getitem_columns_def getitem_mask_def
      map_of_keep)

lemma re_search_empty: "re_search [] = (\<lambda>s. True)"
proof
  fix s show "re_search [] s = True" by (cases s) simp_all
qed

lemma keep_all: "length xs \<le> n \<Longrightarrow> keep (replicate n True) xs = xs"
proof (induction xs arbitrary: n)
  case Nil
  show ?case by (simp add: keep_def)
next
  case (Cons x xs)
  then obtain m where "n = Suc m" by (cases n) auto
  then show ?case using Cons by (simp add: keep_def)
qed

lemma all_present_mask:
  "None \<notin> set c \<Longrightarrow> map (case_option False (\<lambda>s. True)) c = replicate (length c) True"
proof (induction c)
  case Nil
  show ?case by simp
next
  case (Cons a c)
  then obtain y where "a = Some y" by (cases a) auto
  then show ?case using Cons by simp
qed

text \<open>
  Claim C10. On a well-formed table with the columns Date, Sender and Content, and with
  no missing Content cell, the empty word selects every row: the result has the row
  labels of the table and its Date, Sender and Content columns, unchanged and in that
  order.
\<close>

theorem search_empty_word_returns_every_row:
  assumes wf: "wf_dataframe df"
    and d: "map_of (df_columns df) ''Date'' = Some d"
    and s: "map_of (df_columns df) ''Sender'' = Some s"
    and c: "map_of (df_columns df) ''Content'' = Some c"
    and nn: "None \<notin> set c"
  shows "count_word_usage '''' df =
     Some (Inr \<lparr>df_index = df_index df,
               df_columns = [(''Date'', d), (''Sender'', s), (''Content'', c)]\<rparr>)"
proof -
  let ?bs = "replicate (length c) True"
  have len: "length col = length (df_index df)" if "(n, col) \<in> set (df_columns df)" for n col
    using wf that by (auto simp: wf_dataframe_def list_all_iff)
  have lc: "length c = length (df_index df)"
    using len map_of_SomeD[OF c] by blast
  have cols: "map (\<lambda>(n, col). (n, keep ?bs col)) (df_columns df) = df_columns df"
  proof (rule map_idI)
    fix x assume x: "x \<in> set (df_columns df)"
    obtain n col where nc: "x = (n, col)" by (cases x)
    have "length col \<le> length c" using len[of n col] x nc lc by simp
    then show "(case x of (n, col) \<Rightarrow> (n, keep ?bs col)) = x"
      using nc by (simp add: keep_all)
  qed
  have idx: "keep ?bs (df_index df) = df_index df" using lc by (simp add: keep_all)
  have m: "getitem_mask df ?bs = df"
    by (simp add: getitem_mask_def cols idx)
  have sc: "str_contains c '''' = Some (Inr ?bs)"
    by (simp add: str_contains_def re_compile_def re_search_empty all_present_mask[OF nn])
  show ?thesis
    by (simp add: count_word_usage_def c sc m getitem_columns_def d s)
qed

theorem search_empty_word_returns_every_row_witness:
  "count_word_usage ''''
     \<lparr>df_index = [0, 1],
      df_columns = [(''Date'', [Some ''d0'', Some ''d1'']), (''Time'', [Some ''t0'', Some ''t1'']),
                    (''Sender'', [Some ''Alice'', Some ''Bob'']),
                    (''Content'', [Some ''Hello there'', Some ''bye''])]\<rparr> =
   Some (Inr \<lparr>df_index = [0, 1],
      df_columns = [(''Date'', [Some ''d0'', Some ''d1'']),
                    (''Sender'', [Some ''Alice'', Some ''Bob'']),
                    (''Content'', [Some ''Hello there'', Some ''bye''])]\<rparr>)"
  using search_empty_word_returns_every_row[of
      "\<lparr>df_index = [0, 1],
      df_columns = [(''Date'', [Some ''d0'', Some ''d1'']), (''Time'', [Some ''t0'', Some ''t1'']),
                    (''Sender'', [Some ''Alice'', Some ''Bob'']),
                    (''Content'', [Some ''Hello there'', Some ''bye''])]\<rparr>"
      "[Some ''d0'', Some ''d1'']" "[Some ''Alice'', Some ''Bob'']" "[Some ''Hello there'', Some ''bye'']"]
  by (simp add: wf_dataframe_def)

text \<open>
  Claim C4 fails on the code. The word is compiled as a regular expression, so the word
  \<^verbatim>\<open>.\<close> selects every row with a non-empty Content, although none of the three texts
  contains a full stop. (For a word with no special character the search is the literal
  one, \<open>count_word_usage_literal\<close>, and the example of the claim holds,
  \<open>search_hello_example\<close>.)
\<close>

theorem search_dot_matches_any_character:
  "count_word_usage ''.''
     \<lparr>df_index = [0, 1, 2],
      df_columns = [(''Date'', [Some ''d0'', Some ''d1'', Some ''d2'']),
                    (''Sender'', [Some ''Alice'', Some ''Bob'', Some ''Alice'']),
                    (''Content'', [Some ''Hello there'', Some ''bye'', Some ''say hello!''])]\<rparr> =
   Some (Inr \<lparr>df_index = [0, 1, 2],
      df_columns = [(''Date'', [Some ''d0'', Some ''d1'', Some ''d2'']),
                    (''Sender'', [Some ''Alice'', Some ''Bob'', Some ''Alice'']),
                    (''Content'', [Some ''Hello there'', Some ''bye'', Some ''say hello!''])]\<rparr>) \<and>
   \<not> contains_ignoring_case ''.'' ''Hello there'' \<and>
   \<not> contains_ignoring_case ''.'' ''bye'' \<and>
   \<not> contains_ignoring_case ''.'' ''say hello!''"
  by code_simp

lemma search_hello_example:
  "count_word_usage ''hello''
     \<lparr>df_index = [0, 1, 2],
      df_columns = [(''Date'', [Some ''d0'', Some ''d1'', Some ''d2'']),
                    (''Sender'', [Some ''Alice'', Some ''Bob'', Some ''Alice'']),
                    (''Content'', [Some ''Hello there'', Some ''bye'', Some ''say hello!''])]\<rparr> =
   Some (Inr \<lparr>df_index = [0, 2],
      df_columns = [(''Date'', [Some ''d0'', Some ''d2'']),
                    (''Sender'', [Some ''Alice'', Some ''Alice'']),
                    (''Content'', [Some ''Hello there'', Some ''say hello!''])]\<rparr>)"
  by code_simp

text \<open>
  Claim C8 fails on the code. The pattern is compiled before the columns are selected,
  so on a table with no Date column the word \<^verbatim>\<open>?\<close> raises the error of \<open>re.compile\<close>, not
  \<open>KeyError\<close>. (For a word that compiles, the search raises \<open>KeyError\<close> when Date is
  missing, \<open>count_word_usage_no_date\<close>, and returns the filtered Date, Sender and Content
  columns when all three are present, \<open>count_word_usage_with_date\<close>.)
\<close>

theorem search_question_mark_raises:
  "count_word_usage ''?''
     \<lparr>df_index = [0],
      df_columns = [(''Timestamp'', [Some ''2023-01-01, 12:00 PM'']),
                    (''Sender'', [Some ''Alice'']),
                    (''Content'', [Some ''Hello?''])]\<rparr> = Some (Inl ReError)"
  by code_simp

section \<open>Counts per sender\<close>

lemma set_present: "set (present col) = {s. Some s \<in> set col}"
  by (induction col) (auto simp: present_def split: option.splits)

lemma length_filter_count: "length (filter (\<lambda>c. c = a) xs) = count (mset xs) a"
  by (induction xs) auto

lemma groupby_size_eq:
  assumes "map_of (df_columns df) name = Some col"
  shows "groupby_size df name =
     Inr (map (\<lambda>k. (k, count (mset col) (Some k)))
            (sorted_list_of_set {s. Some s \<in># mset col}))"
proof -
  have "sort (remdups (present col)) = sorted_list_of_set (set (present col))"
    by (simp add: sorted_list_of_set_sort_remdups)
  then have "sort (remdups (present col)) = sorted_list_of_set {s. Some s \<in># mset col}"
    by (simp add: set_present)
  then show ?thesis
    using assms by (simp add: groupby_size_def present_def length_filter_count)
qed

lemma map_of_take_rows:
  "map_of (map (\<lambda>(n, c). (n, map (\<lambda>i. c ! i) p)) cols) k
     = map_option (\<lambda>c. map (\<lambda>i. c ! i) p) (map_of cols k)"
  by (induction cols) auto

lemma mset_permuted:
  assumes "mset p = mset [0..<length col]"
  shows "mset (map (\<lambda>i. col ! i) p) = mset col"
proof -
  have "mset (map (\<lambda>i. col ! i) p) = image_mset (\<lambda>i. col ! i) (mset p)" by simp
  also have "\<dots> = image_mset (\<lambda>i. col ! i) (mset [0..<length col])" by (simp only: assms)
  also have "\<dots> = mset (map (\<lambda>i. col ! i) [0..<length col])" by simp
  also have "\<dots> = mset col" by (simp only: map_nth)
  finally show ?thesis .
qed

text \<open>
  Claim C9. On a well-formed table with a Sender column the counts are keyed by the
  distinct senders in strictly increasing order (strings compared character by
  character, by code point), each sender has the number of rows that hold it, and the
  result is the same for every reordering of the rows.
\<close>

theorem sender_counts:
  assumes wf: "wf_dataframe df"
    and col: "map_of (df_columns df) ''Sender'' = Some col"
  shows "\<exists>counts. plot_senders_distribution df = Inr counts \<and>
           sorted_wrt (<) (map fst counts) \<and>
           set (map fst counts) = {s. Some s \<in> set col} \<and>
           (\<forall>(s, n) \<in> set counts. n = length (filter (\<lambda>c. c = Some s) col)) \<and>
           (\<forall>p. mset p = mset [0..<length (df_index df)] \<longrightarrow>
                plot_senders_distribution (take_rows df p) = Inr counts)"
proof -
  let ?keys = "sorted_list_of_set {s. Some s \<in># mset col}"
  let ?counts = "map (\<lambda>k. (k, count (mset col) (Some k))) ?keys"
  have fin: "finite {s. Some s \<in># mset col}"
    using finite_set[of "present col"] by (simp add: set_present)
  have r: "plot_senders_distribution df = Inr ?counts"
    unfolding plot_senders_distribution_def by (rule groupby_size_eq[OF col])
  have keys: "map fst ?counts = ?keys" by (simp add: comp_def)
  have s1: "sorted_wrt (<) (map fst ?counts)"
    unfolding keys by (rule strict_sorted_list_of_set)
  have s2: "set (map fst ?counts) = {s. Some s \<in> set col}"
    unfolding keys using fin by simp
  have s3: "\<forall>(s, n) \<in> set ?counts. n = length (filter (\<lambda>c. c = Some s) col)"
    by (auto simp: length_filter_count)
  have s4: "plot_senders_distribution (take_rows df p) = Inr ?counts"
    if p: "mset p = mset [0..<length (df_index df)]" for p
  proof -
    have "length col = length (df_index df)"
      using wf map_of_SomeD[OF col] by (auto simp: wf_dataframe_def list_all_iff)
    then have m: "mset (map (\<lambda>i. col ! i) p) = mset col"
      using mset_permuted[of p col] p by simp
    have "map_of (df_columns (take_rows df p)) ''Sender'' = Some (map (\<lambda>i. col ! i) p)"
      by (simp add: take_rows_def map_of_take_rows col)
    from groupby_size_eq[OF this] show ?thesis
      unfolding plot_senders_distribution_def by (simp only: m)
  qed
  show ?thesis
    using r s1 s2 s3 s4 by blast
qed

theorem sender_counts_witness:
  "plot_senders_distribution
     \<lparr>df_index = [0, 1, 2],
      df_columns = [(''Sender'', [Some ''Alice'', Some ''Bob'', Some ''Alice'']),
                    (''Content'', [Some ''a'', Some ''b'', Some ''c''])]\<rparr>
     = Inr [(''Alice'', 2), (''Bob'', 1)] \<and>
   plot_senders_distribution
     (take_rows \<lparr>df_index = [0, 1, 2],
      df_columns = [(''Sender'', [Some ''Alice'', Some ''Bob'', Some ''Alice'']),
                    (''Content'', [Some ''a'', Some ''b'', Some ''c''])]\<rparr> [1, 2, 0])
     = Inr [(''Alice'', 2), (''Bob'', 1)]"
proof -
  let ?df = "\<lparr>df_index = [0, 1, 2],
      df_columns = [(''Sender'', [Some ''Alice'', Some ''Bob'', Some ''Alice'']),
                    (''Content'', [Some ''a'', Some ''b'', Some ''c''])]\<rparr>"
  have wf: "wf_dataframe ?df" by (simp add: wf_dataframe_def)
  have col: "map_of (df_columns ?df) ''Sender'' = Some [Some ''Alice'', Some ''Bob'', Some ''Alice'']"
    by simp
  have ev: "plot_senders_distribution ?df = Inr [(''Alice'', 2), (''Bob'', 1)]"
    by code_simp
  have p: "mset [1, 2, 0] = mset [0..<length (df_index ?df)]"
    by (simp add: upt_rec)
  from sender_counts[OF wf col] obtain counts where
    c1: "plot_senders_distribution ?df = Inr counts" and
    c2: "\<forall>p. mset p = mset [0..<length (df_index ?df)] \<longrightarrow>
           plot_senders_distribution (take_rows ?df p) = Inr counts"
    by blast
  have "counts = [(''Alice'', 2), (''Bob'', 1)]" using c1 ev by simp
  moreover have "plot_senders_distribution (take_rows ?df [1, 2, 0]) = Inr counts"
    using c2 p by blast
  ultimately show ?thesis using ev by simp
qed

end
